theory Spec2Isabelle
  imports Main "HOL-Library.Word"
begin

section \<open>Data model\<close>

text \<open>
  Go's \<open>int\<close> and \<open>int64\<close> are 64-bit two's complement words: arithmetic wraps,
  comparisons are signed (\<open>sint\<close>).
\<close>

type_synonym int64 = "64 word"

text \<open>
  A \<open>*model.Contact\<close> is a pointer, compared by identity and used as a map key:
  \<open>None\<close> is \<open>nil\<close>, \<open>Some a\<close> the contact allocated at address \<open>a\<close>.
\<close>

type_synonym ContactPtr = "nat option"

text \<open>Run-time failures of Go that unwind the goroutine and, unrecovered, end the process.\<close>

datatype fault =
    Panic string
  | IndexOutOfRange
  | NilDereference

text \<open>Go \<open>error\<close> values that the functions below return to their caller.\<close>

datatype error =
    NoConversation ContactPtr
  | SignalFolderError string

subsection \<open>Wire types (signal/message.go)\<close>

text \<open>
  A pointer field is an \<open>option\<close> (\<open>None\<close> is \<open>nil\<close>, JSON \<open>null\<close> or an absent
  field); an \<open>interface{}\<close> field keeps its raw value as a string. Field names of
  structs that share a name carry the struct as a prefix, since record fields are
  global constants.
\<close>

record Attachment =
  ContentType :: string
  Filename :: string
  ID :: string
  Size :: int64

record SentMessage =
  sent_Timestamp :: int64
  sent_Message :: string
  sent_ExpiresInSeconds :: int64
  sent_Attachments :: "Attachment list"
  sent_GroupInfo :: "string option"
  sent_Destination :: string

record SyncMessage =
  SentMessage :: "SentMessage option"
  sync_Type :: "string option"
  ReadMessages :: "string option"

record DataMessage =
  data_Timestamp :: int64
  data_Message :: string
  data_ExpiresInSeconds :: int64
  data_Attachments :: "Attachment list"
  data_GroupInfo :: "string option"

record ReceiptMessage =
  When :: int64
  IsDelivery :: bool
  receipt_IsRead :: bool
  Timestamps :: "int64 list"

record Envelope =
  Source :: string
  env_Timestamp :: int64
  IsReceipt :: bool
  SyncMessage :: "SyncMessage option"
  CallMessage :: "string option"
  ReceiptMessage :: "ReceiptMessage option"
  DataMessage :: "DataMessage option"
  SourceDevice :: int64

subsection \<open>Attachment paths (signal/message.go)\<close>

text \<open>
  \<open>filepath.Join\<close> of the Go library on a Unix system: the elements from the first
  non-empty one on are joined with \<open>/\<close> and the result is cleaned by
  \<open>filepath.Clean\<close>, whose loop over the bytes of the path is \<open>clean_loop\<close>: its
  state is the output written so far and the position \<open>dotdot\<close> below which the output
  may not be cut back, its argument the rest of the path.
\<close>

fun strings_Join :: "string list \<Rightarrow> string \<Rightarrow> string" where
  "strings_Join [] sep = []"
| "strings_Join [x] sep = x"
| "strings_Join (x # y # ys) sep = x @ sep @ strings_Join (y # ys) sep"

text \<open>
  The \<open>..\<close> case of \<open>Clean\<close>: \<open>out.w--\<close>, then
  \<open>for out.w > dotdot && out.index(out.w) != '/' { out.w-- }\<close>.
\<close>

function backtrack :: "nat \<Rightarrow> string \<Rightarrow> nat \<Rightarrow> nat" where
  "backtrack dotdot buf w =
     (if dotdot < w \<and> buf ! w \<noteq> CHR ''/'' then backtrack dotdot buf (w - 1) else w)"
  by pat_completeness auto
termination
  by (relation "measure (\<lambda>(dotdot, buf, w). w)") auto

declare backtrack.simps [simp del]

definition is_sep_or_end :: "string \<Rightarrow> bool" where
  "is_sep_or_end s = (case s of [] \<Rightarrow> True | c # _ \<Rightarrow> c = CHR ''/'')"

text \<open>One iteration of the loop \<open>for r < n\<close> of \<open>Clean\<close>, at the byte \<open>c\<close> of the path.\<close>

definition clean_step ::
  "bool \<Rightarrow> string \<Rightarrow> nat \<Rightarrow> char \<Rightarrow> string \<Rightarrow> string \<times> nat \<times> string" where
  "clean_step rooted out dotdot c rest =
     (if c = CHR ''/'' then (out, dotdot, rest)
      else if c = CHR ''.'' \<and> is_sep_or_end rest then (out, dotdot, rest)
      else if c = CHR ''.'' \<and> hd rest = CHR ''.'' \<and> is_sep_or_end (tl rest) then
        (if dotdot < length out
         then (take (backtrack dotdot out (length out - 1)) out, dotdot, tl rest)
         else if \<not> rooted
         then (let out' = (if 0 < length out then out @ ''/'' else out) @ ''..''
               in (out', length out', tl rest))
         else (out, dotdot, tl rest))
      else ((if (rooted \<and> length out \<noteq> 1) \<or> (\<not> rooted \<and> length out \<noteq> 0)
             then out @ ''/'' else out) @ takeWhile (\<lambda>x. x \<noteq> CHR ''/'') (c # rest),
            dotdot, dropWhile (\<lambda>x. x \<noteq> CHR ''/'') (c # rest)))"

lemma clean_step_rest:
  "snd (snd (clean_step rooted out dotdot c rest)) = rest
   \<or> snd (snd (clean_step rooted out dotdot c rest)) = tl rest
   \<or> (c \<noteq> CHR ''/'' \<and>
       snd (snd (clean_step rooted out dotdot c rest)) = dropWhile (\<lambda>x. x \<noteq> CHR ''/'') (c # rest))"
  by (simp add: clean_step_def Let_def)

lemma clean_step_shorter:
  assumes "clean_step rooted out dotdot c rest = (out', dotdot', rest')"
  shows "length rest' \<le> length rest"
proof -
  have r: "snd (snd (clean_step rooted out dotdot c rest)) = rest'"
    using assms by simp
  have "length (dropWhile (\<lambda>x. x \<noteq> CHR ''/'') rest) \<le> length rest"
    by (rule length_dropWhile_le)
  then show ?thesis
    using clean_step_rest [of rooted out dotdot c rest] unfolding r
    by (elim disjE) auto
qed

function clean_loop :: "bool \<Rightarrow> string \<Rightarrow> nat \<Rightarrow> string \<Rightarrow> string \<times> nat" where
  "clean_loop rooted out dotdot [] = (out, dotdot)"
| "clean_loop rooted out dotdot (c # rest) =
     (case clean_step rooted out dotdot c rest of
        (out', dotdot', rest') \<Rightarrow> clean_loop rooted out' dotdot' rest')"
  by pat_completeness auto
termination
proof (relation "measure (\<lambda>(rooted, out, dotdot, p). length p)")
  fix rooted out dotdot c rest out' y dotdot' rest'
  assume "(out', y) = clean_step rooted out dotdot c rest" "(dotdot', rest') = y"
  then have "clean_step rooted out dotdot c rest = (out', dotdot', rest')"
    by simp
  from clean_step_shorter [OF this]
  show "((rooted, out', dotdot', rest'), (rooted, out, dotdot, c # rest))
        \<in> measure (\<lambda>(rooted, out, dotdot, p). length p)"
    by simp
qed simp

definition Clean :: "string \<Rightarrow> string" where
  "Clean path =
     (if path = [] then ''.''
      else let rooted = (hd path = CHR ''/'');
               out = (if rooted then fst (clean_loop True ''/'' 1 (tl path))
                      else fst (clean_loop False [] 0 path))
           in if out = [] then ''.'' else out)"

fun filepath_Join :: "string list \<Rightarrow> string" where
  "filepath_Join [] = []"
| "filepath_Join (e # es) =
     (if e \<noteq> [] then Clean (strings_Join (e # es) ''/'') else filepath_Join es)"

text \<open>
  A path element that \<open>Clean\<close> keeps as it is: not empty, without separator, and neither
  \<open>.\<close> nor \<open>..\<close>. A folder that \<open>Clean\<close> keeps as it is: an absolute path other than
  the root directory that is clean already.
\<close>

definition plain_element :: "string \<Rightarrow> bool" where
  "plain_element e \<longleftrightarrow> e \<noteq> [] \<and> CHR ''/'' \<notin> set e \<and> e \<noteq> ''.'' \<and> e \<noteq> ''..''"

definition clean_absolute :: "string \<Rightarrow> bool" where
  "clean_absolute root \<longleftrightarrow>
     root \<noteq> [] \<and> hd root = CHR ''/'' \<and> root \<noteq> ''/'' \<and> Clean root = root"

text \<open>
  \<open>Attachment.Path\<close>, on a receiver that is not \<open>nil\<close>. \<open>GetSignalFolder\<close> belongs to a
  file of the package that is not part of the sources at hand, so its result (the
  folder, or the error it returns) is an argument.
\<close>

definition Path :: "error + string \<Rightarrow> Attachment \<Rightarrow> error + string" where
  "Path GetSignalFolder a =
     (if ID a = [] then Inr (Filename a)
      else case GetSignalFolder of
             Inl err \<Rightarrow> Inl err
           | Inr folder \<Rightarrow> Inr (filepath_Join [folder, ''attachments'', ID a]))"

subsection \<open>The contact list panel (widgets/widgets.go)\<close>

text \<open>
  The text of the panel is kept as one line per contact with the style \<open>Render\<close> gave
  it: reversed for the current index, bold with a star for a conversation with a new
  message, plain otherwise.
\<close>

datatype line_style = Selected | Unread | Plain

record ContactListPanel =
  sortedContacts :: "ContactPtr list"
  currentIndex :: int64
  contact_lines :: "(ContactPtr \<times> line_style) list"

text \<open>\<open>len(s)\<close> as a Go \<open>int\<close>.\<close>

definition len :: "'a list \<Rightarrow> int64" where
  "len xs = of_nat (length xs)"

text \<open>
  \<open>s[i]\<close> on a slice: the run-time bounds check \<open>0 \<le> i < len(s)\<close>, and a panic
  outside of it.
\<close>

definition index_slice :: "'a list \<Rightarrow> int64 \<Rightarrow> fault + 'a" where
  "index_slice xs i =
     (if 0 \<le> sint i \<and> sint i < int (length xs) then Inr (xs ! nat (sint i))
      else Inl IndexOutOfRange)"

text \<open>
  \<open>Next\<close>: \<open>if cl.currentIndex < len(cl.sortedContacts)-1 { cl.currentIndex++ }\<close>,
  then \<open>return cl.sortedContacts[cl.currentIndex]\<close>. The result is the updated panel
  with the contact returned, or the fault of the slice access.
\<close>

definition Next :: "ContactListPanel \<Rightarrow> fault + (ContactListPanel \<times> ContactPtr)" where
  "Next cl =
     (let cl' = (if sint (currentIndex cl) < sint (len (sortedContacts cl) - 1)
                 then cl\<lparr>currentIndex := currentIndex cl + 1\<rparr> else cl)
      in case index_slice (sortedContacts cl') (currentIndex cl') of
           Inl f \<Rightarrow> Inl f
         | Inr c \<Rightarrow> Inr (cl', c))"

text \<open>\<open>Previous\<close>: \<open>if cl.currentIndex > 0 { cl.currentIndex-- }\<close>, then the same access.\<close>

definition Previous :: "ContactListPanel \<Rightarrow> fault + (ContactListPanel \<times> ContactPtr)" where
  "Previous cl =
     (let cl' = (if 0 < sint (currentIndex cl)
                 then cl\<lparr>currentIndex := currentIndex cl - 1\<rparr> else cl)
      in case index_slice (sortedContacts cl') (currentIndex cl') of
           Inl f \<Rightarrow> Inl f
         | Inr c \<Rightarrow> Inr (cl', c))"

text \<open>
  \<open>GotoIndex\<close> calls itself for a negative index (with \<open>len - index\<close>) and for an
  index beyond the end (with \<open>-1\<close>), so it need not return: \<open>None\<close> is the call that
  never returns, \<open>Some (Inl f)\<close> a fault, \<open>Some (Inr (cl', c))\<close> the normal return.
\<close>

partial_function (option) GotoIndex ::
  "ContactListPanel \<Rightarrow> int64 \<Rightarrow> (fault + (ContactListPanel \<times> ContactPtr)) option" where
  "GotoIndex cl index =
     (if sint index < 0 then GotoIndex cl (len (sortedContacts cl) - index)
      else if sint (len (sortedContacts cl)) \<le> sint index then GotoIndex cl (- 1)
      else (case index_slice (sortedContacts cl) index of
              Inl f \<Rightarrow> Some (Inl f)
            | Inr c \<Rightarrow> Some (Inr (cl\<lparr>currentIndex := index\<rparr>, c))))"

subsection \<open>Messages and conversations (package model)\<close>

text \<open>
  Modelled from the spec: the struct \<open>Message\<close> of the package \<open>model\<close>, which is not
  among the sources at hand. The fields are those \<open>widgets.go\<close> sets and reads, the ones
  the spec lists (spec 3): sender, content, timestamp, the delivered, read and from-self
  flags, and the attachments.
\<close>

record Message =
  Content :: string
  From :: string
  Timestamp :: int64
  IsDelivered :: bool
  IsRead :: bool
  FromSelf :: bool
  Attachments :: "Attachment list"

text \<open>
  Modelled from the spec: the type of the message identifiers in \<open>MessageOrder\<close> and
  \<open>Messages\<close>, which the absent package declares. A message's identity is derived from
  its \<open>(source, timestamp)\<close> pair (spec 3).
\<close>

type_synonym MsgID = "string \<times> int64"

text \<open>
  Modelled from the spec: the struct \<open>Conversation\<close> of the package \<open>model\<close>. The fields
  \<open>Contact\<close>, \<open>Messages\<close>, \<open>MessageOrder\<close> and \<open>HasNewMessage\<close> are those \<open>widgets.go\<close>
  reads and writes; the pending attachments, which it reaches through
  \<open>NumAttachments\<close> and \<open>AddAttachment\<close> only, are the field the spec describes
  (spec 3). \<open>Messages\<close> is a Go map to message pointers: a lookup
  \<open>conv.Messages[ID]\<close> of a missing key yields \<open>nil\<close>, here \<open>None\<close>.
\<close>

record Conversation =
  Contact :: ContactPtr
  Messages :: "MsgID \<rightharpoonup> Message"
  MessageOrder :: "MsgID list"
  HasNewMessage :: bool
  pendingAttachments :: "Attachment list"

text \<open>
  Modelled from the spec: the struct \<open>Siggo\<close> of the package \<open>model\<close>, by what
  \<open>widgets.go\<close> reads from it: \<open>Contacts().SortedByIndex()\<close>, the contacts ordered by
  index (spec 4.2), and \<open>Conversations()\<close>, one conversation per contact (spec 3), a Go
  map from contact pointers to conversations that may be \<open>nil\<close> (\<open>None\<close>). Indexing a
  \<open>nil\<close> map finds nothing. The conversations the map holds are taken to be distinct
  objects, none of them \<open>nil\<close>, so that a change through a conversation pointer is a
  change of the entry under its contact.
\<close>

record Siggo =
  SortedByIndex :: "ContactPtr list"
  Conversations :: "(ContactPtr \<rightharpoonup> Conversation) option"

definition lookup_conv :: "(ContactPtr \<rightharpoonup> Conversation) option \<Rightarrow> ContactPtr \<Rightarrow> Conversation option" where
  "lookup_conv convs c = (case convs of None \<Rightarrow> None | Some m \<Rightarrow> m c)"

subsection \<open>The chat window (widgets/widgets.go)\<close>

text \<open>
  The text of a panel is kept as the items written to it, since the rendering functions
  (\<open>Conversation.String\<close>, \<open>Message.String\<close>, \<open>Contact.String\<close>) belong to the absent
  package: \<open>ConvText conv\<close> is \<open>conv.String()\<close>, \<open>MsgText m\<close> is \<open>m.String("")\<close>.
\<close>

datatype text_item = ConvText Conversation | MsgText Message

datatype panel_title = InitialTitle | NameAndNumber ContactPtr | NameOnly ContactPtr

record ConversationPanel =
  panel_text :: "text_item list"
  title :: panel_title
  hideTitle :: bool
  hidePhoneNumber :: bool

text \<open>The label of the send panel: empty, or the paper clip with the number of attachments.\<close>

datatype send_label = NoLabel | AttachmentLabel int64

record SendPanel =
  input_text :: string
  label :: send_label

text \<open>
  \<open>dispatched\<close> lists the calls \<open>go c.siggo.Send(msg, contact)\<close> started so far; they run
  in goroutines of their own, in code that is not among the sources at hand.
\<close>

record ChatWindow =
  siggo :: Siggo
  currentContact :: ContactPtr
  sendPanel :: SendPanel
  contactsPanel :: ContactListPanel
  conversationPanel :: ConversationPanel
  dispatched :: "(string \<times> ContactPtr) list"

definition currentConversation :: "ChatWindow \<Rightarrow> error + Conversation" where
  "currentConversation c =
     (case lookup_conv (Conversations (siggo c)) (currentContact c) of
        Some currentConv \<Rightarrow> Inr currentConv
      | None \<Rightarrow> Inl (NoConversation (currentContact c)))"

text \<open>
  The loop of \<open>getAttachments\<close> over \<open>conv.MessageOrder\<close>: \<open>msg := conv.Messages[ID]\<close>,
  then \<open>msg.Attachments\<close>, which dereferences \<open>msg\<close> and panics when the key is missing.
\<close>

fun collect_attachments ::
  "(MsgID \<rightharpoonup> Message) \<Rightarrow> MsgID list \<Rightarrow> Attachment list \<Rightarrow> fault + Attachment list" where
  "collect_attachments msgs [] a = Inr a"
| "collect_attachments msgs (i # ids) a =
     (case msgs i of
        None \<Rightarrow> Inl NilDereference
      | Some msg \<Rightarrow>
          collect_attachments msgs ids
            (if 0 < length (Attachments msg) then a @ Attachments msg else a))"

definition getAttachments :: "ChatWindow \<Rightarrow> fault + Attachment list" where
  "getAttachments c =
     (case currentConversation c of
        Inl err \<Rightarrow> Inr []
      | Inr conv \<Rightarrow> collect_attachments (Messages conv) (MessageOrder conv) [])"

text \<open>
  \<open>ConversationPanel.Update\<close> shows the conversation and, through the pointer, clears
  its \<open>HasNewMessage\<close>: the result is the panel and the conversation as it is afterwards.
  The title is kept by the contact it names; \<open>Contact.String\<close>, of the absent package, is
  taken to return.
\<close>

definition ConversationPanel_Update :: "ConversationPanel \<Rightarrow> Conversation \<Rightarrow> ConversationPanel \<times> Conversation" where
  "ConversationPanel_Update p conv =
     (let p1 = p\<lparr>panel_text := [ConvText conv]\<rparr>;
          p2 = (if \<not> hideTitle p1
                then (if \<not> hidePhoneNumber p1
                      then p1\<lparr>title := NameAndNumber (Contact conv)\<rparr>
                      else p1\<lparr>title := NameOnly (Contact conv)\<rparr>)
                else p1)
      in (p2, conv\<lparr>HasNewMessage := False\<rparr>))"

text \<open>Writing a conversation back under its contact, as the mutation through the pointer does.\<close>

definition store_conv :: "Siggo \<Rightarrow> ContactPtr \<Rightarrow> Conversation \<Rightarrow> Siggo" where
  "store_conv s k conv =
     (case Conversations s of
        None \<Rightarrow> s
      | Some m \<Rightarrow> s\<lparr>Conversations := Some (m(k \<mapsto> conv))\<rparr>)"




text \<open>
  The loop of \<open>Render\<close> over the sorted contacts, \<open>i\<close> the loop index. The read
  \<open>convs[c].HasNewMessage\<close> of the second branch dereferences the map's value, \<open>nil\<close>
  for a contact without conversation. \<open>Contact.String\<close> and \<open>Conversation.Color\<close>, of
  the absent package, are taken to return.
\<close>

fun render_lines ::
  "(ContactPtr \<rightharpoonup> Conversation) option \<Rightarrow> int64 \<Rightarrow> int64 \<Rightarrow> ContactPtr list
   \<Rightarrow> fault + (ContactPtr \<times> line_style) list" where
  "render_lines convs cur i [] = Inr []"
| "render_lines convs cur i (c # cs) =
     (case (if cur = i then Inr Selected
            else case lookup_conv convs c of
                   None \<Rightarrow> Inl NilDereference
                 | Some conv \<Rightarrow> Inr (if HasNewMessage conv then Unread else Plain)) of
        Inl f \<Rightarrow> Inl f
      | Inr st \<Rightarrow>
          (case render_lines convs cur (i + 1) cs of
             Inl f \<Rightarrow> Inl f
           | Inr ls \<Rightarrow> Inr ((c, st) # ls)))"

definition Render :: "Siggo \<Rightarrow> ContactListPanel \<Rightarrow> fault + ContactListPanel" where
  "Render s cl =
     (case render_lines (Conversations s) (currentIndex cl) 0 (SortedByIndex s) of
        Inl f \<Rightarrow> Inl f
      | Inr ls \<Rightarrow> Inr (cl\<lparr>sortedContacts := SortedByIndex s, contact_lines := ls\<rparr>))"

text \<open>
  \<open>update\<close>: nothing for a \<open>nil\<close> map; otherwise the contact list is rendered and the
  current conversation shown, and a current contact without conversation is a
  \<open>panic\<close>.
\<close>

definition update :: "ChatWindow \<Rightarrow> fault + ChatWindow" where
  "update c =
     (case Conversations (siggo c) of
        None \<Rightarrow> Inr c
      | Some convs \<Rightarrow>
          (case Render (siggo c) (contactsPanel c) of
             Inl f \<Rightarrow> Inl f
           | Inr cl \<Rightarrow>
               (case convs (currentContact c) of
                  Some currentConv \<Rightarrow>
                    (case ConversationPanel_Update (conversationPanel c) currentConv of
                       (p, conv') \<Rightarrow>
                         Inr (c\<lparr>contactsPanel := cl, conversationPanel := p,
                                siggo := store_conv (siggo c) (currentContact c) conv'\<rparr>))
                | None \<Rightarrow> Inl (Panic ''no conversation for current contact''))))"





text \<open>
  \<open>ShowTempSentMsg\<close>, with \<open>now\<close> the value of \<open>time.Now().Unix()\<close>: the temporary
  message is written to the conversation panel and nowhere else.
\<close>

definition tmpMsg :: "string \<Rightarrow> int64 \<Rightarrow> Message" where
  "tmpMsg msg now =
     \<lparr>Content = msg, From = '' ~ '', Timestamp = now * 1000, IsDelivered = False,
      IsRead = False, FromSelf = True, Attachments = []\<rparr>"

definition ShowTempSentMsg :: "ChatWindow \<Rightarrow> string \<Rightarrow> int64 \<Rightarrow> ChatWindow" where
  "ShowTempSentMsg c msg now =
     c\<lparr>conversationPanel := (conversationPanel c)\<lparr>panel_text :=
          panel_text (conversationPanel c) @ [MsgText (tmpMsg msg now)]\<rparr>\<rparr>"

text \<open>\<open>SendPanel.Send\<close>.\<close>

definition Send :: "ChatWindow \<Rightarrow> int64 \<Rightarrow> ChatWindow" where
  "Send c now =
     (let msg = input_text (sendPanel c);
          contact = currentContact c;
          c1 = ShowTempSentMsg c msg now;
          c2 = c1\<lparr>dispatched := dispatched c1 @ [(msg, contact)]\<rparr>
      in c2\<lparr>sendPanel := (sendPanel c2)\<lparr>input_text := [], label := NoLabel\<rparr>\<rparr>)"

subsection \<open>The conversation store and the classification of envelopes\<close>

text \<open>
  The operations of the Conversation Store (spec 4.3) are code of the package \<open>model\<close>,
  which is not among the sources at hand. They are given here on one conversation;
  \<open>active\<close> says whether the conversation is the one displayed, which the caller tracks.
\<close>

text \<open>
  Modelled from the spec: the identity of a message, its \<open>(source, timestamp)\<close> pair, the
  source being the sender.
\<close>

definition msgID :: "Message \<Rightarrow> MsgID" where
  "msgID m = (From m, Timestamp m)"

text \<open>Modelled from the spec: the empty conversation that \<open>ensure\<close> creates for a contact.\<close>

definition newConversation :: "ContactPtr \<Rightarrow> Conversation" where
  "newConversation contact =
     \<lparr>Contact = contact, Messages = Map.empty, MessageOrder = [], HasNewMessage = False,
      pendingAttachments = []\<rparr>"

text \<open>
  Modelled from the spec: \<open>applyIncoming\<close> discards a message whose identity already
  exists; otherwise it appends to the ordered sequence and marks \<open>hasNewMessage = true\<close>
  unless the conversation is active, in which case the flag stays as it is.
\<close>

definition applyIncoming :: "Conversation \<Rightarrow> bool \<Rightarrow> Message \<Rightarrow> Conversation" where
  "applyIncoming conv active m =
     (case Messages conv (msgID m) of
        Some old \<Rightarrow> conv
      | None \<Rightarrow>
          conv\<lparr>Messages := (Messages conv)(msgID m \<mapsto> m),
               MessageOrder := MessageOrder conv @ [msgID m],
               HasNewMessage := (if active then HasNewMessage conv else True)\<rparr>)"

text \<open>
  A sequence of \<open>applyIncoming\<close> calls on a conversation, each with the activity of the
  conversation at its time.
\<close>

fun applyIncomingAll :: "Conversation \<Rightarrow> (bool \<times> Message) list \<Rightarrow> Conversation" where
  "applyIncomingAll conv [] = conv"
| "applyIncomingAll conv ((active, m) # calls) = applyIncomingAll (applyIncoming conv active m) calls"

text \<open>
  Modelled from the spec: the invariant of the data model (spec 3). Every identifier of
  the ordered sequence has exactly one entry in the mapping and the other way round: the
  two hold the same identifiers, and the sequence holds each once.
\<close>

definition lockstep :: "Conversation \<Rightarrow> bool" where
  "lockstep conv \<longleftrightarrow> set (MessageOrder conv) = dom (Messages conv) \<and> distinct (MessageOrder conv)"


text \<open>
  Modelled from the spec: what \<open>applyReceipt\<close> does to a matching message. Its delivered
  flag is set if the receipt is a delivery receipt, its read flag if it is a read
  receipt.
\<close>

definition mark :: "ReceiptMessage \<Rightarrow> Message \<Rightarrow> Message" where
  "mark r m =
     (let m1 = (if IsDelivery r then m\<lparr>IsDelivered := True\<rparr> else m)
      in if receipt_IsRead r then m1\<lparr>IsRead := True\<rparr> else m1)"

text \<open>
  Modelled from the spec: what \<open>applyReceipt\<close> does for one timestamp of the batch. The
  messages with that timestamp whose \<open>fromSelf\<close> is true are marked; a timestamp without
  such a message changes nothing.
\<close>

definition markTimestamp :: "ReceiptMessage \<Rightarrow> int64 \<Rightarrow> Conversation \<Rightarrow> Conversation" where
  "markTimestamp r ts conv =
     conv\<lparr>Messages := (\<lambda>i. case Messages conv i of
                               None \<Rightarrow> None
                             | Some m \<Rightarrow> Some (if Timestamp m = ts \<and> FromSelf m then mark r m else m))\<rparr>"

text \<open>Modelled from the spec: \<open>applyReceipt\<close> goes through the timestamps of the batch.\<close>

fun markAll :: "ReceiptMessage \<Rightarrow> int64 list \<Rightarrow> Conversation \<Rightarrow> Conversation" where
  "markAll r [] conv = conv"
| "markAll r (ts # tss) conv = markAll r tss (markTimestamp r ts conv)"

text \<open>
  Modelled from the spec: \<open>applyReceipt\<close> (spec 4.3). Its result is the conversation
  afterwards; it has no error result.
\<close>

definition applyReceipt :: "Conversation \<Rightarrow> ReceiptMessage \<Rightarrow> Conversation" where
  "applyReceipt conv r = markAll r (Timestamps r) conv"

text \<open>
  Modelled from the spec: the payload variants of an envelope (spec 3), with the case of
  none populated.
\<close>

datatype payload =
    DirectData DataMessage
  | SyncedSent SentMessage
  | Receipt ReceiptMessage
  | CallSignal string
  | NoPayload

text \<open>
  Modelled from the spec: the synced sent message of an envelope, populated when the sync
  message is and holds a sent message.
\<close>

definition sentOf :: "Envelope \<Rightarrow> SentMessage option" where
  "sentOf e = (case SyncMessage e of None \<Rightarrow> None | Some sm \<Rightarrow> SentMessage sm)"

text \<open>
  Modelled from the spec: the classification of a decoded envelope (spec 4.1, 4.5), whose
  code is not among the sources at hand. The direct data message comes first, then the
  synced sent message, then the receipt, then the call; an envelope without any of them
  has no payload.
\<close>

definition classify :: "Envelope \<Rightarrow> payload" where
  "classify e =
     (case DataMessage e of
        Some d \<Rightarrow> DirectData d
      | None \<Rightarrow>
          (case sentOf e of
             Some sm \<Rightarrow> SyncedSent sm
           | None \<Rightarrow>
               (case ReceiptMessage e of
                  Some r \<Rightarrow> Receipt r
                | None \<Rightarrow>
                    (case CallMessage e of
                       Some call \<Rightarrow> CallSignal call
                     | None \<Rightarrow> NoPayload))))"

text \<open>Modelled from the spec: the signals of the Event Notifier that ingestion raises (spec 4.5, 4.7).\<close>

datatype event = NewData | CallInfo string

text \<open>
  Modelled from the spec: one step of the Ingestion Loop (spec 4.5) on the conversation an
  envelope belongs to. The result is the conversation afterwards with the event for the
  Event Notifier, if any; there is no error result.
\<close>

definition applyEnvelope :: "Conversation \<Rightarrow> bool \<Rightarrow> Envelope \<Rightarrow> Conversation \<times> event option" where
  "applyEnvelope conv active e =
     (case classify e of
        DirectData d \<Rightarrow>
          (applyIncoming conv active
             \<lparr>Content = data_Message d, From = Source e, Timestamp = data_Timestamp d,
              IsDelivered = False, IsRead = False, FromSelf = False,
              Attachments = data_Attachments d\<rparr>, Some NewData)
      | SyncedSent sm \<Rightarrow>
          (applyIncoming conv active
             \<lparr>Content = sent_Message sm, From = Source e, Timestamp = sent_Timestamp sm,
              IsDelivered = False, IsRead = False, FromSelf = True,
              Attachments = sent_Attachments sm\<rparr>, Some NewData)
      | Receipt r \<Rightarrow> (applyReceipt conv r, Some NewData)
      | CallSignal call \<Rightarrow> (conv, Some (CallInfo call))
      | NoPayload \<Rightarrow> (conv, None))"

subsection \<open>Example states\<close>

text \<open>
  A conversation with the contact at address 1 that holds three messages, two of them
  with attachments, and a window on it.
\<close>

definition att1 :: Attachment where
  "att1 = \<lparr>ContentType = ''image/png'', Filename = ''cat.png'', ID = ''101'', Size = 2048\<rparr>"

definition att2 :: Attachment where
  "att2 = \<lparr>ContentType = ''text/plain'', Filename = ''notes.txt'', ID = ''102'', Size = 17\<rparr>"

definition att3 :: Attachment where
  "att3 = \<lparr>ContentType = ''image/jpeg'', Filename = ''/home/u/dog.jpg'', ID = [], Size = 4096\<rparr>"

text \<open>An attachment whose remote identity is not a plain path element.\<close>

definition att4 :: Attachment where
  "att4 = \<lparr>ContentType = ''image/png'', Filename = ''x.png'', ID = ''../x'', Size = 512\<rparr>"

definition msg1 :: Message where
  "msg1 = \<lparr>Content = ''hi'', From = ''+1555'', Timestamp = 1000, IsDelivered = False,
           IsRead = False, FromSelf = False, Attachments = [att1]\<rparr>"

definition msg2 :: Message where
  "msg2 = \<lparr>Content = ''hello'', From = '' ~ '', Timestamp = 2000, IsDelivered = False,
           IsRead = False, FromSelf = True, Attachments = []\<rparr>"

definition msg3 :: Message where
  "msg3 = \<lparr>Content = ''look'', From = ''+1555'', Timestamp = 3000, IsDelivered = False,
           IsRead = False, FromSelf = False, Attachments = [att2, att3]\<rparr>"


definition conv1 :: Conversation where
  "conv1 =
     \<lparr>Contact = Some 1,
      Messages = [(''+1555'', 1000) \<mapsto> msg1, ('' ~ '', 2000) \<mapsto> msg2, (''+1555'', 3000) \<mapsto> msg3],
      MessageOrder = [(''+1555'', 1000), ('' ~ '', 2000), (''+1555'', 3000)],
      HasNewMessage = True, pendingAttachments = [att3]\<rparr>"

definition panel0 :: ContactListPanel where
  "panel0 = \<lparr>sortedContacts = [Some 1], currentIndex = 0, contact_lines = []\<rparr>"

definition window1 :: ChatWindow where
  "window1 =
     \<lparr>siggo = \<lparr>SortedByIndex = [Some 1], Conversations = Some [Some 1 \<mapsto> conv1]\<rparr>,
      currentContact = Some 1,
      sendPanel = \<lparr>input_text = ''on my way'', label = NoLabel\<rparr>,
      contactsPanel = panel0,
      conversationPanel = \<lparr>panel_text = [], title = InitialTitle, hideTitle = False,
                            hidePhoneNumber = False\<rparr>,
      dispatched = []\<rparr>"

text \<open>The same window after the contact at address 2, which has no conversation, became current.\<close>

definition window2 :: ChatWindow where
  "window2 = window1\<lparr>currentContact := Some 2\<rparr>"

text \<open>
  A delivery receipt for the timestamps 2000 and 1000, a read receipt for a timestamp no
  message has, an envelope with every payload populated and one with none.
\<close>

definition receipt1 :: ReceiptMessage where
  "receipt1 = \<lparr>When = 5000, IsDelivery = True, receipt_IsRead = False, Timestamps = [2000, 1000]\<rparr>"

definition receipt2 :: ReceiptMessage where
  "receipt2 = \<lparr>When = 6000, IsDelivery = False, receipt_IsRead = True, Timestamps = [7777]\<rparr>"

definition data1 :: DataMessage where
  "data1 = \<lparr>data_Timestamp = 4000, data_Message = ''yo'', data_ExpiresInSeconds = 0,
            data_Attachments = [], data_GroupInfo = None\<rparr>"

definition sent1 :: SentMessage where
  "sent1 = \<lparr>sent_Timestamp = 4001, sent_Message = ''ok'', sent_ExpiresInSeconds = 0,
            sent_Attachments = [], sent_GroupInfo = None, sent_Destination = ''+1555''\<rparr>"

definition envelope_all :: Envelope where
  "envelope_all =
     \<lparr>Source = ''+1555'', env_Timestamp = 4000, IsReceipt = False,
      SyncMessage = Some \<lparr>SentMessage = Some sent1, sync_Type = None, ReadMessages = None\<rparr>,
      CallMessage = Some ''offer'', ReceiptMessage = Some receipt1, DataMessage = Some data1,
      SourceDevice = 1\<rparr>"

definition envelope_none :: Envelope where
  "envelope_none =
     \<lparr>Source = ''+1555'', env_Timestamp = 4000, IsReceipt = False, SyncMessage = None,
      CallMessage = None, ReceiptMessage = None, DataMessage = None, SourceDevice = 1\<rparr>"

text \<open>The panel of an installation without contacts.\<close>

definition empty_panel :: ContactListPanel where
  "empty_panel = \<lparr>sortedContacts = [], currentIndex = 0, contact_lines = []\<rparr>"

section \<open>The contact list panel: GotoIndex, Next, Previous\<close>

lemma signed_take_bit_63_wrap:
  fixes k :: int
  assumes "2 ^ 63 \<le> k" "k < 2 ^ 64"
  shows "signed_take_bit 63 k = k - 2 ^ 64"
proof -
  have "(k + 2 ^ 63) mod 2 ^ 64 = (k + 2 ^ 63 - 2 ^ 64) mod 2 ^ 64"
    by (simp only: minus_mod_self2)
  also have "\<dots> = k + 2 ^ 63 - 2 ^ 64"
    using assms by (intro mod_pos_pos_trivial) auto
  finally show ?thesis
    by (simp add: signed_take_bit_eq_take_bit_shift take_bit_eq_mod)
qed

text \<open>
  \<open>len - index\<close> for a negative \<open>index\<close> is never a valid position: without overflow it
  is beyond the end, and when it overflows it is negative.
\<close>

lemma len_minus_negative_out_of_range:
  fixes i :: int64 and n :: int
  assumes "0 \<le> n" "n < 2 ^ 63" "sint i < 0"
  shows "\<not> (0 \<le> signed_take_bit 63 (n - sint i) \<and> signed_take_bit 63 (n - sint i) < n)"
proof -
  have lo: "- (2 ^ 63) \<le> sint i"
    using sint_ge [of i] by simp
  show ?thesis
  proof (cases "n - sint i < 2 ^ 63")
    case True
    then have "signed_take_bit 63 (n - sint i) = n - sint i"
      using assms by (intro signed_take_bit_int_eq_self) auto
    then show ?thesis using assms by simp
  next
    case False
    then have "signed_take_bit 63 (n - sint i) = n - sint i - 2 ^ 64"
      using assms lo by (intro signed_take_bit_63_wrap) auto
    then show ?thesis using assms lo by simp
  qed
qed

lemma sint_len: "length xs < 2 ^ 63 \<Longrightarrow> sint (len xs) = int (length xs)"
  unfolding len_def
  by (simp add: signed_of_nat signed_take_bit_int_eq_self)

text \<open>
  Whenever \<open>GotoIndex\<close> returns, the index it was called with is a position of the
  list: by fixpoint induction, since both recursive calls pass an index that is none.
\<close>

lemma GotoIndex_returns_only_in_range:
  assumes ret: "GotoIndex cl i = Some r" and L: "length (sortedContacts cl) < 2 ^ 63"
  shows "0 \<le> sint i \<and> sint i < int (length (sortedContacts cl))"
proof -
  let ?R = "\<lambda>cl (i::int64). 0 \<le> sint i \<and> sint i < int (length (sortedContacts cl))"
  have "length (sortedContacts cl) < 2 ^ 63 \<longrightarrow> ?R cl i"
  proof (rule GotoIndex.raw_induct
      [where P = "\<lambda>cl i r. length (sortedContacts cl) < 2 ^ 63 \<longrightarrow>
                    (0 \<le> sint i \<and> sint i < int (length (sortedContacts cl)))", OF _ ret])
    fix G :: "ContactListPanel \<Rightarrow> int64 \<Rightarrow> (fault + (ContactListPanel \<times> ContactPtr)) option"
    fix cl i r
    assume IH: "\<And>cl i r. G cl i = Some r \<Longrightarrow> length (sortedContacts cl) < 2 ^ 63 \<longrightarrow> ?R cl i"
    assume body: "(if sint i < 0 then G cl (len (sortedContacts cl) - i)
      else if sint (len (sortedContacts cl)) \<le> sint i then G cl (- 1)
      else (case index_slice (sortedContacts cl) i of
              Inl f \<Rightarrow> Some (Inl f)
            | Inr c \<Rightarrow> Some (Inr (cl\<lparr>currentIndex := i\<rparr>, c)))) = Some r"
    show "length (sortedContacts cl) < 2 ^ 63 \<longrightarrow> ?R cl i"
    proof
      assume L: "length (sortedContacts cl) < 2 ^ 63"
      note sl = sint_len [OF L]
      show "?R cl i"
      proof (cases "sint i < 0")
        case True
        with body have "G cl (len (sortedContacts cl) - i) = Some r" by simp
        from IH [OF this] L have "?R cl (len (sortedContacts cl) - i)" by simp
        then have False
          using len_minus_negative_out_of_range [of "int (length (sortedContacts cl))" i] L True
          by (simp add: sint_word_diff sl)
        then show ?thesis ..
      next
        case False
        show ?thesis
        proof (cases "sint (len (sortedContacts cl)) \<le> sint i")
          case True
          with body False have "G cl (- 1) = Some r" by simp
          from IH [OF this] L have "?R cl (- 1)" by simp
          then show ?thesis by simp
        next
          case ge: False
          with False show ?thesis by (simp add: sl)
        qed
      qed
    qed
  qed
  with L show ?thesis by simp
qed

text \<open>So a call with any other index, negative or beyond the end, never returns.\<close>

lemma GotoIndex_out_of_range_never_returns:
  assumes "sint i < 0 \<or> int (length (sortedContacts cl)) \<le> sint i"
    and "length (sortedContacts cl) < 2 ^ 63"
  shows "GotoIndex cl i = None"
proof (cases "GotoIndex cl i")
  case None
  then show ?thesis .
next
  case (Some r)
  from GotoIndex_returns_only_in_range [OF this assms(2)] assms(1) show ?thesis by simp
qed


text \<open>
  C9 (the claim: \<open>GotoIndex\<close> terminates for every list and index and returns a contact
  at a valid position, in particular for every negative index on a non-empty list).
  The code at the index \<open>-1\<close> on a list of two contacts: the call never returns. It calls
  itself with \<open>len - index = 3\<close>, which is beyond the end, so with \<open>-1\<close> again, without end.
\<close>

theorem GotoIndex_minus_one_never_returns:
  "GotoIndex \<lparr>sortedContacts = [Some 1, Some 2], currentIndex = 0, contact_lines = []\<rparr> (- 1) = None"
proof (cases "GotoIndex \<lparr>sortedContacts = [Some 1, Some 2], currentIndex = 0, contact_lines = []\<rparr> (- 1)")
  case None
  then show ?thesis .
next
  case (Some r)
  from GotoIndex_returns_only_in_range [OF this] show ?thesis by simp
qed

text \<open>
  On a non-empty list with the current index at a position of it, \<open>Next\<close> and
  \<open>Previous\<close> return the contact at the new index, which is a position again.
\<close>

lemma Next_in_bounds:
  assumes "0 \<le> sint (currentIndex cl)" "sint (currentIndex cl) < int (length (sortedContacts cl))"
    and "length (sortedContacts cl) < 2 ^ 63"
  shows "\<exists>cl' c. Next cl = Inr (cl', c) \<and> sortedContacts cl' = sortedContacts cl
           \<and> 0 \<le> sint (currentIndex cl') \<and> sint (currentIndex cl') < int (length (sortedContacts cl))
           \<and> c = sortedContacts cl ! nat (sint (currentIndex cl'))"
proof -
  let ?n = "int (length (sortedContacts cl))"
  have n1: "sint (len (sortedContacts cl) - 1) = ?n - 1"
    using assms by (simp add: sint_word_diff sint_len signed_take_bit_int_eq_self)
  show ?thesis
  proof (cases "sint (currentIndex cl) < ?n - 1")
    case True
    then have "sint (currentIndex cl + 1) = sint (currentIndex cl) + 1"
      using assms by (simp add: sint_word_ariths signed_take_bit_int_eq_self)
    with True assms show ?thesis
      by (simp add: Next_def n1 index_slice_def)
  next
    case False
    with assms show ?thesis
      by (simp add: Next_def n1 index_slice_def)
  qed
qed

lemma Previous_in_bounds:
  assumes "0 \<le> sint (currentIndex cl)" "sint (currentIndex cl) < int (length (sortedContacts cl))"
  shows "\<exists>cl' c. Previous cl = Inr (cl', c) \<and> sortedContacts cl' = sortedContacts cl
           \<and> 0 \<le> sint (currentIndex cl') \<and> sint (currentIndex cl') < int (length (sortedContacts cl))
           \<and> c = sortedContacts cl ! nat (sint (currentIndex cl'))"
proof (cases "0 < sint (currentIndex cl)")
  case True
  have "sint (currentIndex cl) < 2 ^ 63"
    using sint_lt [of "currentIndex cl"] by simp
  with True have "sint (currentIndex cl - 1) = sint (currentIndex cl) - 1"
    by (simp add: sint_word_ariths signed_take_bit_int_eq_self)
  with True assms show ?thesis
    by (simp add: Previous_def index_slice_def)
next
  case False
  with assms show ?thesis
    by (simp add: Previous_def index_slice_def)
qed

text \<open>
  C10 (the claim: in every state of the panel, an empty contact list included, \<open>Next\<close>
  and \<open>Previous\<close> keep the index in bounds and return an element without faulting).
  The code on the panel of an empty contact list: neither branch moves the index, and
  the read \<open>cl.sortedContacts[0]\<close> is out of range, a run-time panic.
\<close>

theorem Next_Previous_fault_on_empty_list:
  "Next empty_panel = Inl IndexOutOfRange \<and> Previous empty_panel = Inl IndexOutOfRange"
  by (simp add: Next_def Previous_def empty_panel_def index_slice_def len_def)

section \<open>A current contact without conversation\<close>

text \<open>
  \<open>currentConversation\<close> answers the missing conversation with an error value, and so
  do its callers; \<open>update\<close> looks the same key up and panics.
\<close>

lemma currentConversation_missing:
  "lookup_conv (Conversations (siggo c)) (currentContact c) = None \<Longrightarrow>
   currentConversation c = Inl (NoConversation (currentContact c))"
  by (simp add: currentConversation_def)

lemma update_missing_panics:
  assumes "Conversations (siggo c) = Some convs" "convs (currentContact c) = None"
    and "Render (siggo c) (contactsPanel c) = Inr cl"
  shows "update c = Inl (Panic ''no conversation for current contact'')"
  using assms by (simp add: update_def)

lemma Render_window2:
  "Render (siggo window2) (contactsPanel window2) =
     Inr (panel0\<lparr>sortedContacts := [Some 1], contact_lines := [(Some 1, Selected)]\<rparr>)"
  by (simp add: Render_def window2_def window1_def panel0_def)

text \<open>
  C2 (the claim: no operation aborts the process; a request for the conversation of an
  unknown contact, refreshing the view included, returns a recoverable error).
  The code on a window whose current contact has no conversation:
  \<open>currentConversation\<close> returns the error, and \<open>update\<close>, the refresh run on every
  event, panics.
\<close>

theorem update_panics_without_conversation:
  "currentConversation window2 = Inl (NoConversation (Some 2)) \<and>
   update window2 = Inl (Panic ''no conversation for current contact'')"
proof
  show "currentConversation window2 = Inl (NoConversation (Some 2))"
    by (simp add: currentConversation_def lookup_conv_def window2_def window1_def)
  have "Conversations (siggo window2) = Some [Some 1 \<mapsto> conv1]"
    by (simp add: window2_def window1_def)
  moreover have "[Some 1 \<mapsto> conv1] (currentContact window2) = None"
    by (simp add: window2_def window1_def)
  ultimately show "update window2 = Inl (Panic ''no conversation for current contact'')"
    using Render_window2 by (rule update_missing_panics)
qed

section \<open>The attachments of a conversation\<close>

lemma collect_attachments_concat:
  "set ids \<subseteq> dom msgs \<Longrightarrow>
   collect_attachments msgs ids a = Inr (a @ concat (map (\<lambda>i. Attachments (the (msgs i))) ids))"
proof (induction ids arbitrary: a)
  case Nil
  then show ?case by simp
next
  case (Cons i ids)
  from Cons.prems obtain m where m: "msgs i = Some m" by auto
  from Cons.prems have "set ids \<subseteq> dom msgs" by simp
  from Cons.IH [OF this] m show ?case by simp
qed

text \<open>An identifier of the sequence without a message in the mapping is a fault.\<close>

lemma collect_attachments_missing:
  "\<not> set ids \<subseteq> dom msgs \<Longrightarrow> collect_attachments msgs ids a = Inl NilDereference"
  by (induction ids arbitrary: a) (auto split: option.splits)

lemma getAttachments_no_conversation:
  "currentConversation c = Inl err \<Longrightarrow> getAttachments c = Inr []"
  by (simp add: getAttachments_def)

text \<open>
  C8: for a conversation whose ordered sequence names messages of the mapping only (half
  of the invariant of the data model), \<open>getAttachments\<close> returns the concatenation of
  the attachment lists of its messages in the order of the sequence.
\<close>

theorem getAttachments_in_message_order:
  assumes "currentConversation c = Inr conv"
    and "set (MessageOrder conv) \<subseteq> dom (Messages conv)"
  shows "getAttachments c =
           Inr (concat (map (\<lambda>i. Attachments (the (Messages conv i))) (MessageOrder conv)))"
  using assms collect_attachments_concat [of "MessageOrder conv" "Messages conv" "[]"]
  by (simp add: getAttachments_def)

lemma currentConversation_window1: "currentConversation window1 = Inr conv1"
  by (simp add: currentConversation_def lookup_conv_def window1_def)

theorem getAttachments_in_message_order_witness:
  "currentConversation window1 = Inr conv1 \<and>
   set (MessageOrder conv1) \<subseteq> dom (Messages conv1) \<and>
   getAttachments window1 = Inr [att1, att2, att3]"
proof -
  have sub: "set (MessageOrder conv1) \<subseteq> dom (Messages conv1)"
    by (simp add: conv1_def)
  have "getAttachments window1 =
          Inr (concat (map (\<lambda>i. Attachments (the (Messages conv1 i))) (MessageOrder conv1)))"
    using currentConversation_window1 sub by (rule getAttachments_in_message_order)
  also have "\<dots> = Inr [att1, att2, att3]"
    by (simp add: conv1_def msg1_def msg2_def msg3_def)
  finally show ?thesis
    using currentConversation_window1 sub by simp
qed

section \<open>The conversation store\<close>

lemma applyIncoming_lockstep:
  assumes "lockstep conv"
  shows "lockstep (applyIncoming conv active m)"
proof (cases "Messages conv (msgID m)")
  case None
  then have "msgID m \<notin> dom (Messages conv)" by auto
  with assms have "msgID m \<notin> set (MessageOrder conv)"
    by (simp add: lockstep_def)
  with assms None show ?thesis
    by (auto simp: lockstep_def applyIncoming_def)
next
  case (Some old)
  with assms show ?thesis by (simp add: applyIncoming_def)
qed

lemma applyIncomingAll_lockstep:
  "lockstep conv \<Longrightarrow> lockstep (applyIncomingAll conv calls)"
proof (induction calls arbitrary: conv)
  case Nil
  then show ?case by simp
next
  case (Cons call calls)
  obtain active m where call: "call = (active, m)" by (cases call)
  from Cons.prems have "lockstep (applyIncoming conv active m)"
    by (rule applyIncoming_lockstep)
  from Cons.IH [OF this] call show ?case by simp
qed

lemma applyIncoming_duplicate:
  "Messages conv (msgID m) = Some old \<Longrightarrow> applyIncoming conv active m = conv"
  by (simp add: applyIncoming_def)

lemma applyIncoming_stores: "Messages (applyIncoming conv active m) (msgID m) \<noteq> None"
  by (simp add: applyIncoming_def split: option.splits)

lemma newConversation_lockstep: "lockstep (newConversation contact)"
  by (simp add: lockstep_def newConversation_def)

text \<open>
  C1: starting from a conversation in which the ordered sequence and the mapping are in
  lock-step (a new conversation is), they are in lock-step after every call of any
  sequence of \<open>applyIncoming\<close> calls, that is after every prefix of the sequence; and
  applying a message whose identity is already in the conversation leaves the
  conversation, so the length of its sequence, unchanged. In particular a message
  applied a second time is discarded.
\<close>

theorem applyIncoming_lockstep_and_dedup:
  assumes "lockstep conv"
  shows "(\<forall>n. lockstep (applyIncomingAll conv (take n calls))) \<and>
         (Messages conv (msgID m) \<noteq> None \<longrightarrow>
            length (MessageOrder (applyIncoming conv active m)) = length (MessageOrder conv)) \<and>
         length (MessageOrder (applyIncoming (applyIncoming conv active m) active' m))
           = length (MessageOrder (applyIncoming conv active m))"
proof (intro conjI allI impI)
  fix n
  show "lockstep (applyIncomingAll conv (take n calls))"
    using assms by (rule applyIncomingAll_lockstep)
next
  assume "Messages conv (msgID m) \<noteq> None"
  then show "length (MessageOrder (applyIncoming conv active m)) = length (MessageOrder conv)"
    by (auto simp: applyIncoming_duplicate)
next
  obtain old where "Messages (applyIncoming conv active m) (msgID m) = Some old"
    using applyIncoming_stores [of conv active m] by auto
  then show "length (MessageOrder (applyIncoming (applyIncoming conv active m) active' m))
         = length (MessageOrder (applyIncoming conv active m))"
    by (simp add: applyIncoming_duplicate)
qed

lemma lockstep_conv1: "lockstep conv1"
  by (auto simp: lockstep_def conv1_def)

lemma conv1_has_msg1: "Messages conv1 (msgID msg1) = Some msg1"
  by (simp add: conv1_def msgID_def msg1_def)

theorem applyIncoming_lockstep_and_dedup_witness:
  "lockstep conv1 \<and> Messages conv1 (msgID msg1) \<noteq> None \<and>
   lockstep (applyIncomingAll conv1 [(False, msg1), (True, msg2)]) \<and>
   length (MessageOrder (applyIncoming conv1 False msg1)) = 3"
proof -
  note t = applyIncoming_lockstep_and_dedup
             [OF lockstep_conv1, of "[(False, msg1), (True, msg2)]" msg1 False False]
  from t have "lockstep (applyIncomingAll conv1 (take 2 [(False, msg1), (True, msg2)]))"
    by blast
  then have a: "lockstep (applyIncomingAll conv1 [(False, msg1), (True, msg2)])"
    by simp
  from t conv1_has_msg1
  have "length (MessageOrder (applyIncoming conv1 False msg1)) = length (MessageOrder conv1)"
    by simp
  then have b: "length (MessageOrder (applyIncoming conv1 False msg1)) = 3"
    by (simp add: conv1_def)
  from a b lockstep_conv1 conv1_has_msg1 show ?thesis by simp
qed

subsection \<open>Receipts\<close>

lemma mark_flags:
  "mark r m = m\<lparr>IsDelivered := IsDelivered m \<or> IsDelivery r, IsRead := IsRead m \<or> receipt_IsRead r\<rparr>"
  by (cases "IsDelivery r"; cases "receipt_IsRead r") (simp_all add: mark_def)

lemma mark_again: "mark r (mark r m) = mark r m"
  by (simp add: mark_flags)

lemma mark_keeps: "Timestamp (mark r m) = Timestamp m" "FromSelf (mark r m) = FromSelf m"
  by (simp_all add: mark_flags)

lemma markAll_Messages:
  "Messages (markAll r tss conv) i =
     map_option (\<lambda>m. if Timestamp m \<in> set tss \<and> FromSelf m then mark r m else m) (Messages conv i)"
proof (induction tss arbitrary: conv)
  case Nil
  then show ?case by (simp add: option.map_ident)
next
  case (Cons ts tss)
  show ?case
  proof (cases "Messages conv i")
    case None
    then show ?thesis by (simp add: Cons.IH markTimestamp_def)
  next
    case (Some m)
    then show ?thesis
      by (auto simp: Cons.IH markTimestamp_def mark_keeps mark_again)
  qed
qed

lemma markAll_rest:
  "MessageOrder (markAll r tss conv) = MessageOrder conv \<and>
   HasNewMessage (markAll r tss conv) = HasNewMessage conv \<and>
   Contact (markAll r tss conv) = Contact conv \<and>
   pendingAttachments (markAll r tss conv) = pendingAttachments conv"
  by (induction tss arbitrary: conv) (simp_all add: markTimestamp_def)

text \<open>
  C5: after \<open>applyReceipt\<close> every message is the message it was, with the delivered flag
  set if the receipt is a delivery receipt and the read flag set if it is a read receipt
  when its timestamp is in the batch and it is from self, and unchanged otherwise;
  the rest of the conversation is as it was; and when no message matches, the
  conversation is returned as it was. There is no error result.
\<close>

theorem applyReceipt_marks_exactly_matching:
  "(\<forall>i. Messages (applyReceipt conv r) i =
          map_option
            (\<lambda>m. if Timestamp m \<in> set (Timestamps r) \<and> FromSelf m
                 then m\<lparr>IsDelivered := IsDelivered m \<or> IsDelivery r,
                        IsRead := IsRead m \<or> receipt_IsRead r\<rparr>
                 else m)
            (Messages conv i)) \<and>
   MessageOrder (applyReceipt conv r) = MessageOrder conv \<and>
   HasNewMessage (applyReceipt conv r) = HasNewMessage conv \<and>
   pendingAttachments (applyReceipt conv r) = pendingAttachments conv \<and>
   ((\<forall>i m. Messages conv i = Some m \<longrightarrow> \<not> (Timestamp m \<in> set (Timestamps r) \<and> FromSelf m))
      \<longrightarrow> applyReceipt conv r = conv)"
proof (intro conjI allI impI)
  fix i
  show "Messages (applyReceipt conv r) i =
          map_option
            (\<lambda>m. if Timestamp m \<in> set (Timestamps r) \<and> FromSelf m
                 then m\<lparr>IsDelivered := IsDelivered m \<or> IsDelivery r,
                        IsRead := IsRead m \<or> receipt_IsRead r\<rparr>
                 else m)
            (Messages conv i)"
    by (cases "Messages conv i") (auto simp: applyReceipt_def markAll_Messages mark_flags)
next
  show "MessageOrder (applyReceipt conv r) = MessageOrder conv"
    and "HasNewMessage (applyReceipt conv r) = HasNewMessage conv"
    and "pendingAttachments (applyReceipt conv r) = pendingAttachments conv"
    using markAll_rest [of r "Timestamps r" conv] by (simp_all add: applyReceipt_def)
next
  assume none: "\<forall>i m. Messages conv i = Some m \<longrightarrow> \<not> (Timestamp m \<in> set (Timestamps r) \<and> FromSelf m)"
  have "Messages (applyReceipt conv r) = Messages conv"
  proof
    fix i
    show "Messages (applyReceipt conv r) i = Messages conv i"
    proof (cases "Messages conv i")
      case None
      then show ?thesis by (simp add: applyReceipt_def markAll_Messages)
    next
      case (Some m)
      with none have "\<not> (Timestamp m \<in> set (Timestamps r) \<and> FromSelf m)" by blast
      with Some show ?thesis by (auto simp: applyReceipt_def markAll_Messages)
    qed
  qed
  moreover have "Conversation.more (applyReceipt conv r) = Conversation.more conv"
    by simp
  ultimately show "applyReceipt conv r = conv"
    using markAll_rest [of r "Timestamps r" conv]
    by (intro Conversation.equality) (simp_all add: applyReceipt_def)
qed

theorem applyReceipt_marks_exactly_matching_witness:
  "Messages (applyReceipt conv1 receipt1) ('' ~ '', 2000) = Some (msg2\<lparr>IsDelivered := True\<rparr>) \<and>
   Messages (applyReceipt conv1 receipt1) (''+1555'', 1000) = Some msg1 \<and>
   applyReceipt conv1 receipt2 = conv1"
proof -
  note t1 = applyReceipt_marks_exactly_matching [of conv1 receipt1]
  note t2 = applyReceipt_marks_exactly_matching [of conv1 receipt2]
  from t1 have "Messages (applyReceipt conv1 receipt1) ('' ~ '', 2000) = Some (msg2\<lparr>IsDelivered := True\<rparr>)"
    by (simp add: conv1_def receipt1_def msg2_def)
  moreover from t1 have "Messages (applyReceipt conv1 receipt1) (''+1555'', 1000) = Some msg1"
    by (simp add: conv1_def receipt1_def msg1_def)
  moreover have "\<forall>i m. Messages conv1 i = Some m \<longrightarrow>
                   \<not> (Timestamp m \<in> set (Timestamps receipt2) \<and> FromSelf m)"
    by (auto simp: conv1_def receipt2_def msg1_def msg2_def msg3_def split: if_splits)
  with t2 have "applyReceipt conv1 receipt2 = conv1" by blast
  ultimately show ?thesis by simp
qed

subsection \<open>Classification of envelopes\<close>

text \<open>
  C4: whatever else is populated, a populated data message classifies the envelope as a
  direct data message; without it a populated synced sent message wins, then the
  receipt, then the call. Classification has no error result, and an envelope with no
  variant populated has no payload: applying it leaves the conversation as it was and
  notifies nobody.
\<close>

theorem classify_precedence:
  "(DataMessage e = Some d \<longrightarrow> classify e = DirectData d) \<and>
   (DataMessage e = None \<and> sentOf e = Some sm \<longrightarrow> classify e = SyncedSent sm) \<and>
   (DataMessage e = None \<and> sentOf e = None \<and> ReceiptMessage e = Some r
      \<longrightarrow> classify e = Receipt r) \<and>
   (DataMessage e = None \<and> sentOf e = None \<and> ReceiptMessage e = None \<and> CallMessage e = Some call
      \<longrightarrow> classify e = CallSignal call) \<and>
   (DataMessage e = None \<and> sentOf e = None \<and> ReceiptMessage e = None \<and> CallMessage e = None
      \<longrightarrow> classify e = NoPayload \<and> applyEnvelope conv active e = (conv, None))"
  by (simp add: classify_def applyEnvelope_def)

theorem classify_precedence_witness:
  "DataMessage envelope_all = Some data1 \<and> sentOf envelope_all = Some sent1 \<and>
   ReceiptMessage envelope_all = Some receipt1 \<and> CallMessage envelope_all = Some ''offer'' \<and>
   classify envelope_all = DirectData data1 \<and>
   classify (envelope_all\<lparr>DataMessage := None\<rparr>) = SyncedSent sent1 \<and>
   classify (envelope_all\<lparr>DataMessage := None, SyncMessage := None\<rparr>) = Receipt receipt1 \<and>
   classify envelope_none = NoPayload \<and>
   applyEnvelope conv1 False envelope_none = (conv1, None)"
proof -
  have p: "DataMessage envelope_all = Some data1" "sentOf envelope_all = Some sent1"
    "ReceiptMessage envelope_all = Some receipt1" "CallMessage envelope_all = Some ''offer''"
    by (simp_all add: envelope_all_def sentOf_def)
  have n: "DataMessage envelope_none = None" "sentOf envelope_none = None"
    "ReceiptMessage envelope_none = None" "CallMessage envelope_none = None"
    by (simp_all add: envelope_none_def sentOf_def)
  have "classify envelope_all = DirectData data1"
    using classify_precedence [of envelope_all data1] p by simp
  moreover have "classify (envelope_all\<lparr>DataMessage := None\<rparr>) = SyncedSent sent1"
    using classify_precedence [of "envelope_all\<lparr>DataMessage := None\<rparr>" _ sent1] p
    by (simp add: sentOf_def)
  moreover have
    "classify (envelope_all\<lparr>DataMessage := None, SyncMessage := None\<rparr>) = Receipt receipt1"
    using classify_precedence
      [of "envelope_all\<lparr>DataMessage := None, SyncMessage := None\<rparr>" _ _ receipt1] p
    by (simp add: sentOf_def)
  moreover have "classify envelope_none = NoPayload \<and>
                 applyEnvelope conv1 False envelope_none = (conv1, None)"
    using classify_precedence [of envelope_none _ _ _ _ conv1 False] n by simp
  ultimately show ?thesis using p by simp
qed

section \<open>Viewing a conversation\<close>








section \<open>Sending\<close>

text \<open>
  C6 (the claim as stated: the local echo of a send carries the pending attachments of
  the conversation and is applied to the Conversation Store). Sending from the window of
  the example, whose conversation has one pending attachment: the echo has no
  attachments, and the conversation in the store is the one it was, without the echo.
\<close>

theorem Send_echo_not_in_store:
  "pendingAttachments conv1 = [att3] \<and>
   Attachments (tmpMsg ''on my way'' 1700000000) = [] \<and>
   lookup_conv (Conversations (siggo (Send window1 1700000000))) (Some 1) = Some conv1 \<and>
   Messages conv1 (msgID (tmpMsg ''on my way'' 1700000000)) = None"
  by (simp add: conv1_def tmpMsg_def Send_def ShowTempSentMsg_def Let_def window1_def
      lookup_conv_def msgID_def)

text \<open>
  C6, amended: a send builds at once a temporary message from self, neither delivered
  nor read, with the text of the send panel and without attachments; it is written to
  the conversation panel, the text and the contact are handed to the asynchronous
  \<open>siggo.Send\<close>, and the send panel is emptied. The store is not touched.
\<close>

theorem Send_shows_temporary_echo:
  "FromSelf (tmpMsg msg now) \<and> \<not> IsDelivered (tmpMsg msg now) \<and> \<not> IsRead (tmpMsg msg now) \<and>
   Content (tmpMsg msg now) = msg \<and> Attachments (tmpMsg msg now) = [] \<and>
   panel_text (conversationPanel (Send c now))
     = panel_text (conversationPanel c) @ [MsgText (tmpMsg (input_text (sendPanel c)) now)] \<and>
   dispatched (Send c now) = dispatched c @ [(input_text (sendPanel c), currentContact c)] \<and>
   siggo (Send c now) = siggo c \<and>
   input_text (sendPanel (Send c now)) = []"
  by (simp add: tmpMsg_def Send_def ShowTempSentMsg_def Let_def)

theorem Send_shows_temporary_echo_witness:
  "panel_text (conversationPanel (Send window1 1700000000))
     = [MsgText (tmpMsg ''on my way'' 1700000000)] \<and>
   dispatched (Send window1 1700000000) = [(''on my way'', Some 1)] \<and>
   siggo (Send window1 1700000000) = siggo window1"
  using Send_shows_temporary_echo [of "''on my way''" 1700000000 window1]
  by (simp add: window1_def)

section \<open>Attachment paths\<close>

text \<open>
  \<open>Clean\<close> on a path that continues with a separator: the loop runs over the part
  before it as it does on that part alone, and then goes on from the state reached.
\<close>

lemma is_sep_or_end_simps:
  "is_sep_or_end [] = True" "is_sep_or_end (x # xs) = (x = CHR ''/'')"
  by (simp_all add: is_sep_or_end_def)

lemma is_sep_or_end_append:
  "is_sep_or_end (rest @ CHR ''/'' # q) = is_sep_or_end rest"
  by (cases rest) (simp_all add: is_sep_or_end_simps)

lemma takeWhile_sep_suffix:
  "takeWhile (\<lambda>x. x \<noteq> CHR ''/'') (xs @ CHR ''/'' # q) = takeWhile (\<lambda>x. x \<noteq> CHR ''/'') xs"
  by (induction xs) simp_all

lemma dropWhile_sep_suffix:
  "dropWhile (\<lambda>x. x \<noteq> CHR ''/'') (xs @ CHR ''/'' # q) = dropWhile (\<lambda>x. x \<noteq> CHR ''/'') xs @ CHR ''/'' # q"
  by (induction xs) simp_all

lemma clean_step_sep:
  "clean_step rooted out dotdot (CHR ''/'') rest = (out, dotdot, rest)"
  by (simp add: clean_step_def)

lemma clean_step_dot:
  "is_sep_or_end rest \<Longrightarrow> clean_step rooted out dotdot (CHR ''.'') rest = (out, dotdot, rest)"
  by (simp add: clean_step_def)

lemma clean_step_dotdot:
  assumes "is_sep_or_end rs"
  shows "clean_step rooted out dotdot (CHR ''.'') (CHR ''.'' # rs) =
     (if dotdot < length out
         then (take (backtrack dotdot out (length out - 1)) out, dotdot, rs)
         else if \<not> rooted
         then (let out' = (if 0 < length out then out @ ''/'' else out) @ ''..''
               in (out', length out', rs))
         else (out, dotdot, rs))"
  using assms by (simp add: clean_step_def is_sep_or_end_simps)

lemma clean_step_default:
  assumes "c \<noteq> CHR ''/''" "\<not> (c = CHR ''.'' \<and> is_sep_or_end rest)"
    and "\<not> (c = CHR ''.'' \<and> hd rest = CHR ''.'' \<and> is_sep_or_end (tl rest))"
  shows "clean_step rooted out dotdot c rest =
     ((if (rooted \<and> length out \<noteq> 1) \<or> (\<not> rooted \<and> length out \<noteq> 0)
             then out @ ''/'' else out) @ takeWhile (\<lambda>x. x \<noteq> CHR ''/'') (c # rest),
            dotdot, dropWhile (\<lambda>x. x \<noteq> CHR ''/'') (c # rest))"
  using assms by (simp only: clean_step_def if_False)

lemma clean_step_suffix:
  assumes "clean_step rooted out dotdot c rest = (out1, d1, rest1)"
  shows "clean_step rooted out dotdot c (rest @ CHR ''/'' # q) = (out1, d1, rest1 @ CHR ''/'' # q)"
proof -
  let ?s = "CHR ''/'' # q"
  consider (A) "c = CHR ''/''"
    | (B) "c = CHR ''.''" "is_sep_or_end rest"
    | (C) "c = CHR ''.''" "\<not> is_sep_or_end rest" "hd rest = CHR ''.''" "is_sep_or_end (tl rest)"
    | (D) "c \<noteq> CHR ''/''" "\<not> (c = CHR ''.'' \<and> is_sep_or_end rest)"
          "\<not> (c = CHR ''.'' \<and> hd rest = CHR ''.'' \<and> is_sep_or_end (tl rest))"
    by blast
  then show ?thesis
  proof cases
    case A
    with assms show ?thesis by (simp add: clean_step_sep)
  next
    case B
    then have "is_sep_or_end (rest @ ?s)" by (simp add: is_sep_or_end_append)
    with assms B show ?thesis by (simp add: clean_step_dot)
  next
    case C
    then obtain rs where rest: "rest = CHR ''.'' # rs" "is_sep_or_end rs"
      by (cases rest) (auto simp: is_sep_or_end_simps)
    then have "is_sep_or_end (rs @ ?s)" by (simp add: is_sep_or_end_append)
    from clean_step_dotdot [OF this, of rooted out dotdot]
      clean_step_dotdot [OF rest(2), of rooted out dotdot] assms C(1) rest(1)
    show ?thesis by (auto simp: Let_def split: if_splits)
  next
    case D
    have d1: "\<not> (c = CHR ''.'' \<and> is_sep_or_end (rest @ ?s))"
      using D by (simp add: is_sep_or_end_append)
    have d2: "\<not> (c = CHR ''.'' \<and> hd (rest @ ?s) = CHR ''.'' \<and> is_sep_or_end (tl (rest @ ?s)))"
    proof (cases rest)
      case Nil
      then show ?thesis by simp
    next
      case (Cons x rs)
      with D(3) show ?thesis by (simp add: is_sep_or_end_append)
    qed
    have "clean_step rooted out dotdot c (rest @ ?s) =
            ((if (rooted \<and> length out \<noteq> 1) \<or> (\<not> rooted \<and> length out \<noteq> 0)
             then out @ ''/'' else out) @ takeWhile (\<lambda>x. x \<noteq> CHR ''/'') (c # rest),
            dotdot, dropWhile (\<lambda>x. x \<noteq> CHR ''/'') (c # rest) @ ?s)"
      using clean_step_default [OF D(1) d1 d2, of rooted out dotdot] D(1)
      by (simp add: takeWhile_sep_suffix dropWhile_sep_suffix)
    with assms clean_step_default [OF D, of rooted out dotdot] show ?thesis by simp
  qed
qed

lemma clean_loop_suffix:
  "clean_loop rooted out dotdot (p @ CHR ''/'' # q) =
     (case clean_loop rooted out dotdot p of
        (out', dotdot') \<Rightarrow> clean_loop rooted out' dotdot' (CHR ''/'' # q))"
proof (induction rooted out dotdot p rule: clean_loop.induct)
  case (1 rooted out dotdot)
  then show ?case by simp
next
  case (2 rooted out dotdot c rest)
  obtain out1 d1 rest1 where st: "clean_step rooted out dotdot c rest = (out1, d1, rest1)"
    by (cases "clean_step rooted out dotdot c rest") auto
  from clean_step_suffix [OF st]
  have st': "clean_step rooted out dotdot c (rest @ CHR ''/'' # q) = (out1, d1, rest1 @ CHR ''/'' # q)" .
  from 2 [OF st [symmetric] refl] st st' show ?case by simp
qed

lemma clean_loop_plain:
  assumes "plain_element e" "is_sep_or_end q"
  shows "clean_loop rooted out dotdot (e @ q) =
           clean_loop rooted
             ((if (rooted \<and> length out \<noteq> 1) \<or> (\<not> rooted \<and> length out \<noteq> 0)
               then out @ ''/'' else out) @ e) dotdot q"
proof -
  let ?P = "\<lambda>x. x \<noteq> CHR ''/''"
  from assms obtain c e' where e: "e = c # e'" by (cases e) (auto simp: plain_element_def)
  have c: "c \<noteq> CHR ''/''" and e': "CHR ''/'' \<notin> set e'"
    using assms e by (auto simp: plain_element_def)
  have tw: "takeWhile ?P (c # e' @ q) = e"
    using assms e by (cases q) (auto simp: plain_element_def is_sep_or_end_simps takeWhile_append)
  have dw: "dropWhile ?P (c # e' @ q) = q"
    using assms e by (cases q) (auto simp: plain_element_def is_sep_or_end_simps dropWhile_append)
  have n1: "\<not> (c = CHR ''.'' \<and> is_sep_or_end (e' @ q))"
    using assms e e' by (cases e') (auto simp: plain_element_def is_sep_or_end_simps)
  have n2: "\<not> (c = CHR ''.'' \<and> hd (e' @ q) = CHR ''.'' \<and> is_sep_or_end (tl (e' @ q)))"
  proof (cases e')
    case Nil
    with n1 assms show ?thesis by (cases q) (auto simp: is_sep_or_end_simps)
  next
    case (Cons x xs)
    with assms e e' show ?thesis
      by (cases xs) (auto simp: plain_element_def is_sep_or_end_simps)
  qed
  have "clean_step rooted out dotdot c (e' @ q) =
          ((if (rooted \<and> length out \<noteq> 1) \<or> (\<not> rooted \<and> length out \<noteq> 0)
            then out @ ''/'' else out) @ e, dotdot, q)"
    using clean_step_default [OF c n1 n2, of rooted out dotdot] by (simp only: tw dw)
  then show ?thesis by (simp add: e)
qed

lemma plain_element_attachments: "plain_element ''attachments''"
  by (simp add: plain_element_def)

lemma Join_clean_root:
  assumes cr: "clean_absolute root" and idp: "plain_element i"
  shows "filepath_Join [root, ''attachments'', i] = root @ ''/attachments/'' @ i"
proof -
  from cr have root: "hd root = CHR ''/''" "root \<noteq> []" "root \<noteq> ''/''" "Clean root = root"
    by (simp_all add: clean_absolute_def)
  obtain o1 d1 where l: "clean_loop True ''/'' 1 (tl root) = (o1, d1)"
    by (cases "clean_loop True ''/'' 1 (tl root)")
  from root l have "(if o1 = [] then ''.'' else o1) = root"
    by (simp add: Clean_def Let_def cong: if_cong)
  with root have o1: "o1 = root" by (auto split: if_splits)
  have len: "length root \<noteq> 1"
    using root by (cases root) auto
  have "tl (root @ ''/attachments/'' @ i) = tl root @ CHR ''/'' # (''attachments'' @ CHR ''/'' # i)"
    using root by (cases root) simp_all
  then have "clean_loop True ''/'' 1 (tl (root @ ''/attachments/'' @ i))
        = clean_loop True root d1 (CHR ''/'' # (''attachments'' @ CHR ''/'' # i))"
    by (simp only: clean_loop_suffix l o1 prod.case)
  also have "\<dots> = clean_loop True root d1 (''attachments'' @ CHR ''/'' # i)"
    by (simp add: clean_step_sep)
  also have "\<dots> = clean_loop True (root @ ''/attachments'') d1 (CHR ''/'' # i)"
    using clean_loop_plain [OF plain_element_attachments, of "CHR ''/'' # i" True root d1] len
    by (simp add: is_sep_or_end_simps)
  also have "\<dots> = clean_loop True (root @ ''/attachments'') d1 (i @ [])"
    by (simp add: clean_step_sep)
  also have "\<dots> = clean_loop True (root @ ''/attachments/'' @ i) d1 []"
    using clean_loop_plain [OF idp, of "[]" True "root @ ''/attachments''" d1]
    by (simp add: is_sep_or_end_simps)
  finally have "fst (clean_loop True ''/'' 1 (tl (root @ ''/attachments/'' @ i)))
        = root @ ''/attachments/'' @ i"
    by simp
  with root show ?thesis
    by (simp add: Clean_def Let_def cong: if_cong)
qed

text \<open>
  The join is cleaned lexically, so an identity with \<open>..\<close> elements resolves to the
  shorter name of the same place.
\<close>

lemma Join_dotdot_example:
  "filepath_Join [''/srv/signal'', ''attachments'', ''../x''] = ''/srv/signal/x''"
  by code_simp

text \<open>
  C3 (the claim as stated: for every attachment with a non-empty remote identity the
  path is \<open>storageRoot/attachments/identity\<close>). An attachment with the identity
  \<open>../x\<close>, with the signal folder \<open>/srv/signal\<close>: the path returned is
  \<open>/srv/signal/x\<close>, not \<open>/srv/signal/attachments/../x\<close>.
\<close>

theorem Path_cleans_identity:
  "ID att4 \<noteq> [] \<and>
   Path (Inr ''/srv/signal'') att4 = Inr ''/srv/signal/x'' \<and>
   Path (Inr ''/srv/signal'') att4 \<noteq> Inr (''/srv/signal'' @ ''/attachments/'' @ ID att4)"
proof -
  have i: "ID att4 = ''../x''"
    by (simp add: att4_def)
  have "Path (Inr ''/srv/signal'') att4
          = Inr (filepath_Join [''/srv/signal'', ''attachments'', ''../x''])"
    by (simp add: Path_def i del: filepath_Join.simps)
  then have "Path (Inr ''/srv/signal'') att4 = Inr ''/srv/signal/x''"
    by (simp only: Join_dotdot_example)
  then show ?thesis by (simp add: i)
qed

text \<open>
  C3, amended: an attachment without remote identity resolves to its filename as it is;
  one with a remote identity resolves, when the signal folder is \<open>root\<close>, to the cleaned
  join of \<open>root\<close>, \<open>attachments\<close> and the identity, which is
  \<open>root/attachments/identity\<close> letter by letter whenever the folder is a clean absolute
  path other than the root directory and the identity is a plain path element.
\<close>

theorem Path_resolves:
  "(ID a = [] \<longrightarrow> Path folder a = Inr (Filename a)) \<and>
   (ID a \<noteq> [] \<longrightarrow> Path (Inr root) a = Inr (filepath_Join [root, ''attachments'', ID a])) \<and>
   (clean_absolute root \<and> plain_element (ID a) \<longrightarrow>
      Path (Inr root) a = Inr (root @ ''/attachments/'' @ ID a))"
proof (intro conjI impI)
  show "ID a = [] \<Longrightarrow> Path folder a = Inr (Filename a)"
    by (simp add: Path_def)
  show "ID a \<noteq> [] \<Longrightarrow> Path (Inr root) a = Inr (filepath_Join [root, ''attachments'', ID a])"
    by (simp add: Path_def)
next
  assume h: "clean_absolute root \<and> plain_element (ID a)"
  then have "ID a \<noteq> []" by (simp add: plain_element_def)
  then have "Path (Inr root) a = Inr (filepath_Join [root, ''attachments'', ID a])"
    by (simp add: Path_def)
  also have "filepath_Join [root, ''attachments'', ID a] = root @ ''/attachments/'' @ ID a"
    using h by (intro Join_clean_root) simp_all
  finally show "Path (Inr root) a = Inr (root @ ''/attachments/'' @ ID a)" .
qed

lemma clean_absolute_example: "clean_absolute ''/home/u/.local/share/signal-cli''"
proof -
  have "Clean ''/home/u/.local/share/signal-cli'' = ''/home/u/.local/share/signal-cli''"
    by code_simp
  then show ?thesis by (simp add: clean_absolute_def)
qed

theorem Path_resolves_witness:
  "ID att3 = [] \<and> clean_absolute ''/home/u/.local/share/signal-cli'' \<and> plain_element (ID att1) \<and>
   Path (Inl (SignalFolderError ''no home'')) att3 = Inr ''/home/u/dog.jpg'' \<and>
   Path (Inr ''/home/u/.local/share/signal-cli'') att1
     = Inr ''/home/u/.local/share/signal-cli/attachments/101''"
proof -
  have i: "ID att3 = []" "ID att1 = ''101''" "Filename att3 = ''/home/u/dog.jpg''"
    by (simp_all add: att1_def att3_def)
  have p: "plain_element (ID att1)"
    by (simp add: i plain_element_def)
  from Path_resolves [of att3 "Inl (SignalFolderError ''no home'')"] i
  have "Path (Inl (SignalFolderError ''no home'')) att3 = Inr ''/home/u/dog.jpg''"
    by simp
  moreover from Path_resolves [of att1 _ "''/home/u/.local/share/signal-cli''"]
    clean_absolute_example p
  have "Path (Inr ''/home/u/.local/share/signal-cli'') att1
          = Inr (''/home/u/.local/share/signal-cli'' @ ''/attachments/'' @ ID att1)"
    by blast
  then have "Path (Inr ''/home/u/.local/share/signal-cli'') att1
          = Inr ''/home/u/.local/share/signal-cli/attachments/101''"
    by (simp add: i)
  ultimately show ?thesis using i p clean_absolute_example by simp
qed

end
